theory Spec2Isabelle
  imports Main
begin

section \<open>Strings and the static catalogs\<close>

text \<open>
  Executable names are compared after \<open>str.lower()\<close>, which is aware of Unicode (it
  maps the Kelvin sign to \<open>k\<close>, for one). The services therefore take the function as
  a parameter, \<open>str_lower\<close> below. On a string of ASCII characters it is
  \<open>ascii_lower\<close>: the letters A to Z go to a to z, every other character stays.
\<close>

definition lower_char :: "char \<Rightarrow> char" where
  "lower_char c =
     (case map_of (zip ''ABCDEFGHIJKLMNOPQRSTUVWXYZ'' ''abcdefghijklmnopqrstuvwxyz'') c of
        None \<Rightarrow> c
      | Some d \<Rightarrow> d)"

definition ascii_lower :: "string \<Rightarrow> string" where
  "ascii_lower s = map lower_char s"

text \<open>
  What the services use of the Python runtime: \<open>str.lower\<close>, and the order in which a
  set of strings is iterated. That order follows the hashes of the strings, which change
  from one interpreter run to the next, so it is a parameter as well: \<open>set_order\<close> gives,
  for each of the three places where \<open>_check_games\<close> walks through a set, the order in
  which the elements come. It is an order of a set when it lists the same elements, each
  once.
\<close>

datatype set_site = CurrentGames | NewGames | ClosedGames

record py_runtime =
  str_lower :: "string \<Rightarrow> string"
  set_order :: "set_site \<Rightarrow> string list \<Rightarrow> string list"

definition is_set_order :: "(set_site \<Rightarrow> string list \<Rightarrow> string list) \<Rightarrow> bool" where
  "is_set_order order =
     (\<forall>site xs. distinct xs \<longrightarrow> distinct (order site xs) \<and> set (order site xs) = set xs)"

definition BROWSER_PROCESSES :: "string list" where
  "BROWSER_PROCESSES =
     [''chrome.exe'', ''firefox.exe'', ''msedge.exe'', ''opera.exe'', ''brave.exe'',
      ''vivaldi.exe'', ''waterfox.exe'', ''iexplore.exe'', ''safari.exe'',
      ''chrome_crashpad_handler.exe'', ''firefox_crashpad_handler.exe'']"

definition LAUNCHER_PROCESSES :: "string list" where
  "LAUNCHER_PROCESSES =
     [''steam.exe'', ''steamwebhelper.exe'', ''steamservice.exe'',
      ''EpicGamesLauncher.exe'', ''EpicWebHelper.exe'',
      ''Battle.net.exe'', ''Agent.exe'',
      ''EADesktop.exe'', ''EABackgroundService.exe'', ''Origin.exe'',
      ''UbisoftConnect.exe'', ''upc.exe'',
      ''GalaxyClient.exe'', ''GalaxyClientService.exe'',
      ''XboxPcApp.exe'', ''XboxPcAppFT.exe'',
      ''Rockstar-Launcher.exe'',
      ''RiotClientServices.exe'']"

definition BACKGROUND_PROCESSES :: "string list" where
  "BACKGROUND_PROCESSES =
     [''Discord.exe'', ''Slack.exe'', ''Teams.exe'', ''Zoom.exe'', ''Skype.exe'',
      ''Spotify.exe'', ''iTunes.exe'',
      ''OneDrive.exe'', ''Dropbox.exe'', ''GoogleDriveFS.exe'',
      ''iCUE.exe'', ''NZXT CAM.exe'', ''RazerCentral.exe'']"

definition SUPPORTED_GAMES :: "(string \<times> string list) list" where
  "SUPPORTED_GAMES =
     [(''Call of Duty'', [''cod.exe'', ''ModernWarfare.exe'', ''BlackOpsColdWar.exe'', ''cod.exe'']),
      (''Fortnite'', [''FortniteClient-Win64-Shipping.exe'', ''FortniteLauncher.exe'']),
      (''Apex Legends'', [''r5apex.exe'']),
      (''Counter-Strike 2'', [''cs2.exe'']),
      (''Valheim'', [''valheim.exe'']),
      (''DOTA 2'', [''dota2.exe'']),
      (''League of Legends'', [''League of Legends.exe'', ''LeagueClient.exe'']),
      (''Overwatch'', [''Overwatch.exe'']),
      (''Valorant'', [''VALORANT-Win64-Shipping.exe'']),
      (''GTA V'', [''GTA5.exe'']),
      (''Red Dead Redemption 2'', [''RDR2.exe'']),
      (''Cyberpunk 2077'', [''Cyberpunk2077.exe'']),
      (''Minecraft'', [''javaw.exe'', ''Minecraft.Windows.exe'']),
      (''Elden Ring'', [''eldenring.exe'']),
      (''Baldur's Gate 3'', [''bg3.exe'', ''bg3_dx11.exe'']),
      (''Diablo IV'', [''Diablo IV.exe'']),
      (''Path of Exile'', [''PathOfExile_x64.exe'', ''PathOfExileSteam.exe'']),
      (''World of Warcraft'', [''Wow.exe'', ''WowClassic.exe''])]"

section \<open>The operating system as the services see it\<close>

type_synonym pid = int

text \<open>
  One step of \<open>psutil.process_iter\<close>: an entry with its name (which may be \<open>None\<close>)
  and identifier, an entry whose inspection raises \<open>NoSuchProcess\<close> or
  \<open>AccessDenied\<close> (the loops \<open>continue\<close>), or any other exception, which leaves
  the loop through the outer \<open>except Exception\<close>.
\<close>

datatype proc_item =
    ProcInfo "string option" pid
  | ProcGone
  | IterError

text \<open>
  A call through \<open>ctypes\<close> either raises or returns an integer (a handle, or an
  NTSTATUS). The answers are a function of the target identifier for the duration of the
  calls considered. The environment also carries the caller's own identifier and the
  Python runtime.
\<close>

datatype os_ret = Raises | Returns int

record os_env =
  process_iter :: "proc_item list"
  open_process :: "pid \<Rightarrow> os_ret"
  nt_suspend_process :: "pid \<Rightarrow> os_ret"
  nt_resume_process :: "pid \<Rightarrow> os_ret"
  close_handle :: "pid \<Rightarrow> os_ret"
  getpid :: pid
  python :: py_runtime

text \<open>The system calls made so far, in order; the target identifier stands for its handle.\<close>

datatype os_call =
    CallOpenProcess pid
  | CallNtSuspendProcess pid
  | CallNtResumeProcess pid
  | CallCloseHandle pid

section \<open>SuspendService\<close>

text \<open>
  The instance attributes set by \<open>__init__\<close>. The set \<open>_suspended_pids\<close> is a list
  without repetitions; its iteration order is the list order (Python leaves it open).
  The attributes \<open>suspend_explorer\<close>, \<open>suspend_browsers\<close> and \<open>suspend_launchers\<close>
  carry the names of three methods of the class; an attribute lookup on the instance
  finds the instance attribute, a \<open>bool\<close>. The method bodies are the definitions
  whose names end in \<open>_method\<close>.
\<close>

record suspend_service =
  enabled :: bool
  suspend_explorer :: bool
  suspend_browsers :: bool
  suspend_launchers :: bool
  suspend_background :: bool
  suspended_pids :: "pid list"
  explorer_pid :: "pid option"
  psutil_available :: bool
  ctypes_available :: bool

type_synonym world = "suspend_service \<times> os_call list"

definition init_service :: "bool \<Rightarrow> bool \<Rightarrow> suspend_service" where
  "init_service have_psutil have_ctypes =
     \<lparr> enabled = True,
       suspend_explorer = True,
       suspend_browsers = True,
       suspend_launchers = True,
       suspend_background = False,
       suspended_pids = [],
       explorer_pid = None,
       psutil_available = have_psutil,
       ctypes_available = have_ctypes \<rparr>"

definition set_add :: "'a \<Rightarrow> 'a list \<Rightarrow> 'a list" where
  "set_add p xs = (if p \<in> set xs then xs else xs @ [p])"

definition set_discard :: "'a \<Rightarrow> 'a list \<Rightarrow> 'a list" where
  "set_discard p xs = removeAll p xs"

definition set_diff :: "'a list \<Rightarrow> 'a list \<Rightarrow> 'a list" where
  "set_diff xs ys = filter (\<lambda>x. x \<notin> set ys) xs"

text \<open>
  The test \<open>proc.info['name'] and P(proc.info['name'].lower())\<close>: a name that is
  \<open>None\<close> or empty is falsy. Then the truthiness of \<open>self._explorer_pid\<close>.
\<close>

fun name_matches :: "(string \<Rightarrow> string) \<Rightarrow> string option \<Rightarrow> (string \<Rightarrow> bool) \<Rightarrow> bool" where
  "name_matches lower None P = False"
| "name_matches lower (Some n) P = (n \<noteq> [] \<and> P (lower n))"

fun truthy_pid :: "pid option \<Rightarrow> bool" where
  "truthy_pid None = False"
| "truthy_pid (Some p) = (p \<noteq> 0)"

definition suspend_process :: "os_env \<Rightarrow> pid \<Rightarrow> world \<Rightarrow> bool \<times> world" where
  "suspend_process env p w =
     (case w of (s, tr) \<Rightarrow>
        if \<not> ctypes_available s then (False, (s, tr))
        else
          (case open_process env p of
             Raises \<Rightarrow> (False, (s, tr @ [CallOpenProcess p]))
           | Returns handle \<Rightarrow>
               if handle = 0 then (False, (s, tr @ [CallOpenProcess p]))
               else
                 (let tr' = tr @ [CallOpenProcess p, CallNtSuspendProcess p, CallCloseHandle p]
                  in case nt_suspend_process env p of
                       Raises \<Rightarrow> (False, (s, tr'))
                     | Returns result \<Rightarrow>
                         if result = 0 then
                           (case close_handle env p of
                              Raises \<Rightarrow>
                                (False, (s\<lparr>suspended_pids := set_add p (suspended_pids s)\<rparr>, tr'))
                            | Returns _ \<Rightarrow>
                                (True, (s\<lparr>suspended_pids := set_add p (suspended_pids s)\<rparr>, tr')))
                         else (False, (s, tr')))))"

definition resume_process :: "os_env \<Rightarrow> pid \<Rightarrow> world \<Rightarrow> bool \<times> world" where
  "resume_process env p w =
     (case w of (s, tr) \<Rightarrow>
        if \<not> ctypes_available s then (False, (s, tr))
        else
          (case open_process env p of
             Raises \<Rightarrow> (False, (s, tr @ [CallOpenProcess p]))
           | Returns handle \<Rightarrow>
               if handle = 0 then (False, (s, tr @ [CallOpenProcess p]))
               else
                 (let tr' = tr @ [CallOpenProcess p, CallNtResumeProcess p, CallCloseHandle p]
                  in case nt_resume_process env p of
                       Raises \<Rightarrow> (False, (s, tr'))
                     | Returns result \<Rightarrow>
                         if result = 0 then
                           (case close_handle env p of
                              Raises \<Rightarrow>
                                (False, (s\<lparr>suspended_pids := set_discard p (suspended_pids s)\<rparr>, tr'))
                            | Returns _ \<Rightarrow>
                                (True, (s\<lparr>suspended_pids := set_discard p (suspended_pids s)\<rparr>, tr')))
                         else (False, (s, tr')))))"

text \<open>The loop of \<open>_get_pids_by_name\<close>, with the list \<open>pids\<close> built so far.\<close>

fun scan_names :: "(string \<Rightarrow> string) \<Rightarrow> string list \<Rightarrow> proc_item list \<Rightarrow> pid list \<Rightarrow> pid list" where
  "scan_names lower names_lower [] pids = pids"
| "scan_names lower names_lower (ProcInfo name p # rest) pids =
     (if name_matches lower name (\<lambda>n. n \<in> set names_lower)
      then scan_names lower names_lower rest (pids @ [p])
      else scan_names lower names_lower rest pids)"
| "scan_names lower names_lower (ProcGone # rest) pids = scan_names lower names_lower rest pids"
| "scan_names lower names_lower (IterError # rest) pids = pids"

definition get_pids_by_name :: "os_env \<Rightarrow> suspend_service \<Rightarrow> string list \<Rightarrow> pid list" where
  "get_pids_by_name env s process_names =
     (if \<not> psutil_available s then []
      else scan_names (str_lower (python env))
             (map (str_lower (python env)) process_names) (process_iter env) [])"

text \<open>The loop of the method \<open>suspend_explorer\<close>.\<close>

fun explorer_loop :: "os_env \<Rightarrow> proc_item list \<Rightarrow> world \<Rightarrow> bool \<times> world" where
  "explorer_loop env [] w = (False, w)"
| "explorer_loop env (ProcInfo name p # rest) w =
     (if name_matches (str_lower (python env)) name (\<lambda>n. n = ''explorer.exe'')
      then (case suspend_process env p w of
              (ok, (s', tr')) \<Rightarrow>
                if ok then (True, (s'\<lparr>explorer_pid := Some p\<rparr>, tr'))
                else explorer_loop env rest (s', tr'))
      else explorer_loop env rest w)"
| "explorer_loop env (ProcGone # rest) w = explorer_loop env rest w"
| "explorer_loop env (IterError # rest) w = (False, w)"

definition suspend_explorer_method :: "os_env \<Rightarrow> world \<Rightarrow> bool \<times> world" where
  "suspend_explorer_method env w =
     (if \<not> psutil_available (fst w) then (False, w)
      else explorer_loop env (process_iter env) w)"

definition resume_explorer :: "os_env \<Rightarrow> world \<Rightarrow> bool \<times> world" where
  "resume_explorer env w =
     (case explorer_pid (fst w) of
        None \<Rightarrow> (True, w)
      | Some p \<Rightarrow>
          if p = 0 then (True, w)
          else
            (case resume_process env p w of
               (result, (s', tr')) \<Rightarrow>
                 if result then (True, (s'\<lparr>explorer_pid := None\<rparr>, tr'))
                 else (False, (s', tr'))))"

record suspend_results =
  suspended :: nat
  failed :: nat

text \<open>The loop shared by \<open>suspend_browsers\<close>, \<open>suspend_launchers\<close> and
  \<open>suspend_background_apps\<close>.\<close>

fun suspend_each :: "os_env \<Rightarrow> pid list \<Rightarrow> suspend_results \<Rightarrow> world \<Rightarrow> suspend_results \<times> world" where
  "suspend_each env [] results w = (results, w)"
| "suspend_each env (p # pids) results w =
     (case suspend_process env p w of
        (ok, w') \<Rightarrow>
          if ok then suspend_each env pids (results\<lparr>suspended := suspended results + 1\<rparr>) w'
          else suspend_each env pids (results\<lparr>failed := failed results + 1\<rparr>) w')"

definition suspend_browsers_method :: "os_env \<Rightarrow> world \<Rightarrow> suspend_results \<times> world" where
  "suspend_browsers_method env w =
     suspend_each env (get_pids_by_name env (fst w) BROWSER_PROCESSES)
       \<lparr>suspended = 0, failed = 0\<rparr> w"

definition suspend_launchers_method :: "os_env \<Rightarrow> world \<Rightarrow> suspend_results \<times> world" where
  "suspend_launchers_method env w =
     suspend_each env (get_pids_by_name env (fst w) LAUNCHER_PROCESSES)
       \<lparr>suspended = 0, failed = 0\<rparr> w"

definition suspend_background_apps :: "os_env \<Rightarrow> world \<Rightarrow> suspend_results \<times> world" where
  "suspend_background_apps env w =
     suspend_each env (get_pids_by_name env (fst w) BACKGROUND_PROCESSES)
       \<lparr>suspended = 0, failed = 0\<rparr> w"

text \<open>
  \<open>activate_game_mode\<close>. The dictionary it returns is either \<open>{"status": "disabled"}\<close>
  or the five counters under the status \<open>"activated"\<close>. The expressions
  \<open>self.suspend_explorer()\<close>, \<open>self.suspend_browsers()\<close> and
  \<open>self.suspend_launchers()\<close> call the instance attribute of that name, a \<open>bool\<close>:
  Python raises \<open>TypeError\<close>, and nothing in \<open>activate_game_mode\<close> catches it.
\<close>

datatype py_error = TypeError

datatype activate_results =
    Disabled
  | Activated (explorer_suspended: bool) (browsers_suspended: nat)
      (launchers_suspended: nat) (background_suspended: nat) (total_suspended: nat)

definition call_bool :: "bool \<Rightarrow> world \<Rightarrow> py_error + ('a \<times> world)" where
  "call_bool attribute w = Inl TypeError"

definition activate_game_mode :: "os_env \<Rightarrow> world \<Rightarrow> (py_error + activate_results) \<times> world" where
  "activate_game_mode env w =
     (if \<not> enabled (fst w) then (Inr Disabled, w)
      else
        (case (if suspend_explorer (fst w) then call_bool (suspend_explorer (fst w)) w
               else Inr (False, w)) of
           Inl e \<Rightarrow> (Inl e, w)
         | Inr (r_explorer, w1) \<Rightarrow>
        (case (if suspend_browsers (fst w1)
               then call_bool (suspend_browsers (fst w1)) w1
               else Inr (\<lparr>suspended = 0, failed = 0\<rparr>, w1)) of
           Inl e \<Rightarrow> (Inl e, w1)
         | Inr (browser_results, w2) \<Rightarrow>
        (case (if suspend_launchers (fst w2)
               then call_bool (suspend_launchers (fst w2)) w2
               else Inr (\<lparr>suspended = 0, failed = 0\<rparr>, w2)) of
           Inl e \<Rightarrow> (Inl e, w2)
         | Inr (launcher_results, w3) \<Rightarrow>
        (case (if suspend_background (fst w3) then suspend_background_apps env w3
               else (\<lparr>suspended = 0, failed = 0\<rparr>, w3)) of
           (bg_results, w4) \<Rightarrow>
             (Inr (Activated r_explorer (suspended browser_results)
                     (suspended launcher_results) (suspended bg_results)
                     ((if r_explorer then 1 else 0) + suspended browser_results
                        + suspended launcher_results + suspended bg_results)),
              w4))))))"

record deactivate_results =
  resumed :: nat
  failed_resumes :: nat

fun resume_each :: "os_env \<Rightarrow> pid list \<Rightarrow> deactivate_results \<Rightarrow> world \<Rightarrow> deactivate_results \<times> world" where
  "resume_each env [] results w = (results, w)"
| "resume_each env (p # pids) results w =
     (case resume_process env p w of
        (ok, w') \<Rightarrow>
          if ok then resume_each env pids (results\<lparr>resumed := resumed results + 1\<rparr>) w'
          else resume_each env pids (results\<lparr>failed_resumes := failed_resumes results + 1\<rparr>) w')"

definition deactivate_game_mode :: "os_env \<Rightarrow> world \<Rightarrow> deactivate_results \<times> world" where
  "deactivate_game_mode env w =
     (case (if truthy_pid (explorer_pid (fst w)) then
              (case resume_explorer env w of
                 (ok, w') \<Rightarrow>
                   if ok then (\<lparr>resumed = 1, failed_resumes = 0\<rparr>, w')
                   else (\<lparr>resumed = 0, failed_resumes = 1\<rparr>, w'))
            else (\<lparr>resumed = 0, failed_resumes = 0\<rparr>, w)) of
        (results, w1) \<Rightarrow> resume_each env (suspended_pids (fst w1)) results w1)"

section \<open>GameDetectorService\<close>

text \<open>
  The attributes of the detector that \<open>_check_games\<close> reads and writes. A callback is
  absent (\<open>None\<close>) or a procedure acting on the caller's state \<open>'u\<close>; the callbacks
  are taken to return normally. A set of game names is a list without repetitions; the
  order in which Python walks through it is \<open>set_order\<close>.
\<close>

record 'u game_detector =
  det_enabled :: bool
  auto_optimize :: bool
  detected_games :: "string list"
  on_game_detected :: "(string \<Rightarrow> 'u \<Rightarrow> 'u) option"
  on_game_closed :: "(string \<Rightarrow> 'u \<Rightarrow> 'u) option"
  det_psutil_available :: bool

text \<open>The inner loop over \<open>SUPPORTED_GAMES.items()\<close>: the first game that lists the name.\<close>

fun game_lookup :: "(string \<Rightarrow> string) \<Rightarrow> (string \<times> string list) list \<Rightarrow> string \<Rightarrow> string option" where
  "game_lookup lower [] proc_lower = None"
| "game_lookup lower ((game_name, process_names) # rest) proc_lower =
     (if proc_lower \<in> set (map lower process_names) then Some game_name
      else game_lookup lower rest proc_lower)"

text \<open>The loop over the processes; \<open>None\<close> is the early \<open>return\<close> of the outer handler.\<close>

fun scan_games :: "(string \<Rightarrow> string) \<Rightarrow> proc_item list \<Rightarrow> string list \<Rightarrow> string list option" where
  "scan_games lower [] current_games = Some current_games"
| "scan_games lower (ProcInfo None p # rest) current_games = scan_games lower rest current_games"
| "scan_games lower (ProcInfo (Some proc_name) p # rest) current_games =
     (if proc_name = [] then scan_games lower rest current_games
      else
        (case game_lookup lower SUPPORTED_GAMES (lower proc_name) of
           None \<Rightarrow> scan_games lower rest current_games
         | Some game_name \<Rightarrow> scan_games lower rest (set_add game_name current_games)))"
| "scan_games lower (ProcGone # rest) current_games = scan_games lower rest current_games"
| "scan_games lower (IterError # rest) current_games = None"

definition notify :: "(string \<Rightarrow> 'u \<Rightarrow> 'u) option \<Rightarrow> string \<Rightarrow> 'u \<Rightarrow> 'u" where
  "notify callback game u = (case callback of None \<Rightarrow> u | Some f \<Rightarrow> f game u)"

definition check_games ::
  "py_runtime \<Rightarrow> proc_item list \<Rightarrow> 'u game_detector \<times> 'u \<Rightarrow> 'u game_detector \<times> 'u" where
  "check_games rt procs du =
     (case du of (d, u) \<Rightarrow>
        if \<not> det_psutil_available d then (d, u)
        else
          (case scan_games (str_lower rt) procs [] of
             None \<Rightarrow> (d, u)
           | Some current_games \<Rightarrow>
               (let previous_games = remdups (detected_games d);
                    u1 = fold (\<lambda>game v. if auto_optimize d
                                          then notify (on_game_detected d) game v else v)
                           (set_order rt NewGames (set_diff current_games previous_games)) u;
                    u2 = fold (\<lambda>game v. notify (on_game_closed d) game v)
                           (set_order rt ClosedGames (set_diff previous_games current_games)) u1
                in (d\<lparr>detected_games := set_order rt CurrentGames current_games\<rparr>, u2))))"

text \<open>The notifications a recording caller receives.\<close>

datatype event = Detected string | Closed string

definition record_detected :: "string \<Rightarrow> event list \<Rightarrow> event list" where
  "record_detected game evs = evs @ [Detected game]"

definition record_closed :: "string \<Rightarrow> event list \<Rightarrow> event list" where
  "record_closed game evs = evs @ [Closed game]"

definition init_detector :: "bool \<Rightarrow> 'u game_detector" where
  "init_detector have_psutil =
     \<lparr> det_enabled = True,
       auto_optimize = True,
       detected_games = [],
       on_game_detected = None,
       on_game_closed = None,
       det_psutil_available = have_psutil \<rparr>"

text \<open>
  A scripted run: each snapshot of the process table is one poll tick; for every tick the
  notifications it delivered to a recording caller and the set stored afterwards. Then a
  detector as \<open>__init__\<close> leaves it, with both callbacks registered.
\<close>

fun run_ticks ::
  "py_runtime \<Rightarrow> proc_item list list \<Rightarrow> event list game_detector \<Rightarrow>
     (event list \<times> string set) list" where
  "run_ticks rt [] d = []"
| "run_ticks rt (procs # later) d =
     (case check_games rt procs (d, []) of
        (d', evs) \<Rightarrow> (evs, set (detected_games d')) # run_ticks rt later d')"

definition recording_detector :: "event list game_detector" where
  "recording_detector =
     (init_detector True)
       \<lparr>on_game_detected := Some record_detected, on_game_closed := Some record_closed\<rparr>"

section \<open>Vocabulary for the statements\<close>

text \<open>
  What the operating system answers for an identifier: whether \<open>OpenProcess\<close> hands
  out a handle (neither an exception nor \<open>NULL\<close>), whether the suspend or resume
  transition then reports \<open>STATUS_SUCCESS\<close>, whether \<open>CloseHandle\<close> returns, and the
  system calls one attempt makes.
\<close>

definition handle_opens :: "os_env \<Rightarrow> pid \<Rightarrow> bool" where
  "handle_opens env p = (case open_process env p of Raises \<Rightarrow> False | Returns h \<Rightarrow> h \<noteq> 0)"

definition suspend_succeeds :: "os_env \<Rightarrow> pid \<Rightarrow> bool" where
  "suspend_succeeds env p = (handle_opens env p \<and> nt_suspend_process env p = Returns 0)"

definition resume_succeeds :: "os_env \<Rightarrow> pid \<Rightarrow> bool" where
  "resume_succeeds env p = (handle_opens env p \<and> nt_resume_process env p = Returns 0)"

definition close_returns :: "os_env \<Rightarrow> pid \<Rightarrow> bool" where
  "close_returns env p = (close_handle env p \<noteq> Raises)"

definition nt_calls :: "(pid \<Rightarrow> os_call) \<Rightarrow> os_env \<Rightarrow> pid \<Rightarrow> os_call list" where
  "nt_calls nt env p =
     (if handle_opens env p then [CallOpenProcess p, nt p, CallCloseHandle p]
      else [CallOpenProcess p])"

text \<open>
  A runtime for the examples, whose names are all ASCII: \<open>ascii_lower\<close>, and sets
  walked through in the reverse of the order of insertion.
\<close>

definition sample_python :: py_runtime where
  "sample_python = \<lparr> str_lower = ascii_lower, set_order = (\<lambda>site xs. rev xs) \<rparr>"

text \<open>
  A process table for the examples: the shell, two background applications, a browser,
  an entry that vanishes during the enumeration and one without a name. The handle of
  14 cannot be opened and 11 refuses to resume.
\<close>

definition sample_env :: os_env where
  "sample_env =
     \<lparr> process_iter =
         [ProcInfo (Some ''System'') 4,
          ProcInfo (Some ''explorer.exe'') 12,
          ProcInfo (Some ''Discord.exe'') 10,
          ProcGone,
          ProcInfo (Some ''CHROME.EXE'') 11,
          ProcInfo None 13,
          ProcInfo (Some ''Spotify.exe'') 14],
       open_process = (\<lambda>p. if p = 14 then Returns 0 else Returns 256),
       nt_suspend_process = (\<lambda>p. Returns 0),
       nt_resume_process = (\<lambda>p. if p = 11 then Returns 5 else Returns 0),
       close_handle = (\<lambda>p. Returns 1),
       getpid = 10,
       python = sample_python \<rparr>"

text \<open>
  With the flag \<open>_ctypes_available\<close> taken into account: whether an attempt on an
  identifier changes the set, whether it returns \<open>True\<close>, and the system calls a loop
  over a list of identifiers makes.
\<close>

definition suspend_adds :: "bool \<Rightarrow> os_env \<Rightarrow> pid \<Rightarrow> bool" where
  "suspend_adds have_ctypes env p = (have_ctypes \<and> suspend_succeeds env p)"

definition suspend_returns :: "bool \<Rightarrow> os_env \<Rightarrow> pid \<Rightarrow> bool" where
  "suspend_returns have_ctypes env p = (suspend_adds have_ctypes env p \<and> close_returns env p)"

definition resume_discards :: "bool \<Rightarrow> os_env \<Rightarrow> pid \<Rightarrow> bool" where
  "resume_discards have_ctypes env p = (have_ctypes \<and> resume_succeeds env p)"

definition resume_returns :: "bool \<Rightarrow> os_env \<Rightarrow> pid \<Rightarrow> bool" where
  "resume_returns have_ctypes env p = (resume_discards have_ctypes env p \<and> close_returns env p)"

definition calls_of :: "bool \<Rightarrow> (pid \<Rightarrow> os_call) \<Rightarrow> os_env \<Rightarrow> pid list \<Rightarrow> os_call list" where
  "calls_of have_ctypes nt env ps = (if have_ctypes then concat (map (nt_calls nt env) ps) else [])"

text \<open>
  The entries of a process table that the loops get to see: those before the first
  exception that ends the enumeration. Then the names of the three categories, and the
  identifiers that the table lists under \<open>explorer.exe\<close> or a category name.
\<close>

definition enumerated :: "proc_item list \<Rightarrow> proc_item list" where
  "enumerated procs = takeWhile (\<lambda>item. item \<noteq> IterError) procs"

definition category_names :: "string list" where
  "category_names = BROWSER_PROCESSES @ LAUNCHER_PROCESSES @ BACKGROUND_PROCESSES"

definition matched_pids :: "os_env \<Rightarrow> pid list" where
  "matched_pids env =
     scan_names (str_lower (python env))
       (''explorer.exe'' # map (str_lower (python env)) category_names) (process_iter env) []"

text \<open>The operations a caller can run on a service.\<close>

datatype operation =
    OpSuspendExplorer
  | OpSuspendBrowsers
  | OpSuspendLaunchers
  | OpSuspendBackgroundApps
  | OpResumeExplorer
  | OpActivateGameMode
  | OpDeactivateGameMode

fun run_operation :: "os_env \<Rightarrow> operation \<Rightarrow> world \<Rightarrow> world" where
  "run_operation env OpSuspendExplorer w = snd (suspend_explorer_method env w)"
| "run_operation env OpSuspendBrowsers w = snd (suspend_browsers_method env w)"
| "run_operation env OpSuspendLaunchers w = snd (suspend_launchers_method env w)"
| "run_operation env OpSuspendBackgroundApps w = snd (suspend_background_apps env w)"
| "run_operation env OpResumeExplorer w = snd (resume_explorer env w)"
| "run_operation env OpActivateGameMode w = snd (activate_game_mode env w)"
| "run_operation env OpDeactivateGameMode w = snd (deactivate_game_mode env w)"

text \<open>
  Sample services and tables: only the background category switched on; the shell
  suspended and tracked; two identifiers tracked; a table on which every
  \<open>OpenProcess\<close> is refused; and the sample table seen by a caller that is itself
  listed in it, as identifier 4 under the name \<open>System\<close>.
\<close>

definition background_only :: suspend_service where
  "background_only =
     (init_service True True)
       \<lparr>suspend_explorer := False, suspend_browsers := False,
        suspend_launchers := False, suspend_background := True\<rparr>"

definition shell_suspended :: suspend_service where
  "shell_suspended = (init_service True True)\<lparr>suspended_pids := [12], explorer_pid := Some 12\<rparr>"

definition two_tracked :: suspend_service where
  "two_tracked = (init_service True True)\<lparr>suspended_pids := [10, 11]\<rparr>"

definition other_env :: os_env where
  "other_env = sample_env\<lparr>getpid := 4\<rparr>"

definition denied_env :: os_env where
  "denied_env = sample_env\<lparr>open_process := (\<lambda>p. Returns 0)\<rparr>"

section \<open>The suspend and resume primitives\<close>

lemma suspend_process_eq:
  "suspend_process env p (s, tr) =
     (if ctypes_available s then
        (suspend_succeeds env p \<and> close_returns env p,
         (if suspend_succeeds env p then s\<lparr>suspended_pids := set_add p (suspended_pids s)\<rparr> else s),
         tr @ nt_calls CallNtSuspendProcess env p)
      else (False, s, tr))"
  by (simp add: suspend_process_def suspend_succeeds_def close_returns_def nt_calls_def
        handle_opens_def Let_def split: os_ret.splits)

lemma resume_process_eq:
  "resume_process env p (s, tr) =
     (if ctypes_available s then
        (resume_succeeds env p \<and> close_returns env p,
         (if resume_succeeds env p then s\<lparr>suspended_pids := set_discard p (suspended_pids s)\<rparr> else s),
         tr @ nt_calls CallNtResumeProcess env p)
      else (False, s, tr))"
  by (simp add: resume_process_def resume_succeeds_def close_returns_def nt_calls_def
        handle_opens_def Let_def split: os_ret.splits)

lemma suspend_process_eq2:
  "suspend_process env p (s, tr) =
     (suspend_returns (ctypes_available s) env p,
      (if suspend_adds (ctypes_available s) env p
       then s\<lparr>suspended_pids := set_add p (suspended_pids s)\<rparr> else s),
      tr @ (if ctypes_available s then nt_calls CallNtSuspendProcess env p else []))"
  by (simp add: suspend_process_eq suspend_returns_def suspend_adds_def calls_of_def)

lemma resume_process_eq2:
  "resume_process env p (s, tr) =
     (resume_returns (ctypes_available s) env p,
      (if resume_discards (ctypes_available s) env p
       then s\<lparr>suspended_pids := set_discard p (suspended_pids s)\<rparr> else s),
      tr @ (if ctypes_available s then nt_calls CallNtResumeProcess env p else []))"
  by (simp add: resume_process_eq resume_returns_def resume_discards_def calls_of_def)

lemma calls_of_Cons:
  "calls_of c nt env (p # ps) = (if c then nt_calls nt env p else []) @ calls_of c nt env ps"
  by (simp add: calls_of_def)

lemma discard_step:
  "filter (\<lambda>q. \<not> (q \<in> set ps \<and> D q)) (if D p then set_discard p xs else xs) =
   filter (\<lambda>q. \<not> (q \<in> set (p # ps) \<and> D q)) xs"
  by (induction xs) (auto simp: set_discard_def)

lemma resume_each_eq:
  "resume_each env ps r (s, tr) =
     (r\<lparr>resumed := resumed r + length (filter (resume_returns (ctypes_available s) env) ps),
        failed_resumes := failed_resumes r +
            length (filter (\<lambda>q. \<not> resume_returns (ctypes_available s) env q) ps)\<rparr>,
      (s\<lparr>suspended_pids :=
            filter (\<lambda>q. \<not> (q \<in> set ps \<and> resume_discards (ctypes_available s) env q))
              (suspended_pids s)\<rparr>,
       tr @ calls_of (ctypes_available s) CallNtResumeProcess env ps))"
proof (induction ps arbitrary: r s tr)
  case Nil
  show ?case by (simp add: calls_of_def)
next
  case (Cons p ps)
  have sp: "filter (\<lambda>q. \<not> (q \<in> set ps \<and> D q)) (if D p then set_discard p xs else xs) =
            filter (\<lambda>q. \<not> ((q = p \<or> q \<in> set ps) \<and> D q)) xs" for D and xs :: "pid list"
    using discard_step [of ps D p xs] by simp
  show ?case
    using sp [of "resume_discards (ctypes_available s) env" "suspended_pids s"]
    by (simp add: resume_process_eq2 Cons.IH calls_of_Cons
          split: if_splits)
qed

lemma suspend_each_eq:
  "suspend_each env ps r (s, tr) =
     (r\<lparr>suspended := suspended r + length (filter (suspend_returns (ctypes_available s) env) ps),
        failed := failed r +
            length (filter (\<lambda>q. \<not> suspend_returns (ctypes_available s) env q) ps)\<rparr>,
      (s\<lparr>suspended_pids :=
            fold set_add (filter (suspend_adds (ctypes_available s) env) ps) (suspended_pids s)\<rparr>,
       tr @ calls_of (ctypes_available s) CallNtSuspendProcess env ps))"
proof (induction ps arbitrary: r s tr)
  case Nil
  show ?case by (simp add: calls_of_def)
next
  case (Cons p ps)
  show ?case
    by (simp add: suspend_process_eq2 Cons.IH calls_of_Cons)
qed

lemma open_in_nt_calls: "CallOpenProcess p \<in> set (nt_calls nt env p)"
  by (simp add: nt_calls_def)

lemma open_in_calls_of: "p \<in> set ps \<Longrightarrow> CallOpenProcess p \<in> set (calls_of True nt env ps)"
  by (induction ps) (auto simp: calls_of_def open_in_nt_calls)

text \<open>
  C8: when no handle to the target can be opened (\<open>OpenProcess\<close> raises or returns
  \<open>NULL\<close>), \<open>_suspend_process\<close> returns \<open>False\<close> and the service is exactly as
  before: the set of suspended identifiers and the shell identifier are untouched, and
  the only system call made is the failed \<open>OpenProcess\<close>.
\<close>

theorem suspend_open_failure:
  "\<not> handle_opens env p \<Longrightarrow>
   suspend_process env p (s, tr) =
     (False, (s, if ctypes_available s then tr @ [CallOpenProcess p] else tr))"
  by (simp add: suspend_process_eq suspend_succeeds_def nt_calls_def)

theorem suspend_open_failure_witness:
  "\<not> handle_opens sample_env 14 \<and>
   suspend_process sample_env 14 (init_service True True, []) =
     (False, (init_service True True, [CallOpenProcess 14]))"
  using suspend_open_failure [of sample_env 14 "init_service True True" "[]"]
  by (simp add: handle_opens_def sample_env_def init_service_def)

section \<open>Activation\<close>

text \<open>
  C10: with \<open>enabled\<close> false, \<open>activate_game_mode\<close> returns \<open>{"status": "disabled"}\<close>,
  makes no system call (the trace is unchanged) and leaves the service as it was.
\<close>

theorem activate_disabled:
  "\<not> enabled s \<Longrightarrow> activate_game_mode env (s, tr) = (Inr Disabled, (s, tr))"
  by (simp add: activate_game_mode_def)

theorem activate_disabled_witness:
  "\<not> enabled ((init_service True True)\<lparr>enabled := False\<rparr>) \<and>
   activate_game_mode sample_env ((init_service True True)\<lparr>enabled := False\<rparr>, []) =
     (Inr Disabled, ((init_service True True)\<lparr>enabled := False\<rparr>, []))"
  using activate_disabled [of "(init_service True True)\<lparr>enabled := False\<rparr>" sample_env "[]"]
  by (simp add: init_service_def)

text \<open>
  C1: the claim is that \<open>activate_game_mode\<close> returns its dictionary of counts for every
  setting of the toggles and never raises. On a freshly constructed service the call
  \<open>self.suspend_explorer()\<close> applies the attribute \<open>True\<close> and raises \<open>TypeError\<close>
  before any process is touched.
\<close>

theorem activate_default_raises:
  "activate_game_mode sample_env (init_service True True, []) =
     (Inl TypeError, (init_service True True, []))"
  by (simp add: activate_game_mode_def init_service_def call_bool_def)

lemma fold_set_add_set: "set (fold set_add xs ys) = set xs \<union> set ys"
  by (induction xs arbitrary: ys) (auto simp: set_add_def)

lemma fold_set_add_absorb: "set xs \<subseteq> set ys \<Longrightarrow> fold set_add xs ys = ys"
  by (induction xs arbitrary: ys) (auto simp: set_add_def)

lemma fold_set_add_twice: "fold set_add xs (fold set_add xs ys) = fold set_add xs ys"
  by (rule fold_set_add_absorb) (simp add: fold_set_add_set)

lemma activate_game_mode_eq:
  "activate_game_mode env (s, tr) =
     (if \<not> enabled s then (Inr Disabled, (s, tr))
      else if suspend_explorer s \<or> suspend_browsers s \<or> suspend_launchers s
      then (Inl TypeError, (s, tr))
      else if suspend_background s then
        (Inr (Activated False 0 0
               (length (filter (suspend_returns (ctypes_available s) env)
                  (get_pids_by_name env s BACKGROUND_PROCESSES)))
               (length (filter (suspend_returns (ctypes_available s) env)
                  (get_pids_by_name env s BACKGROUND_PROCESSES)))),
         (s\<lparr>suspended_pids :=
              fold set_add (filter (suspend_adds (ctypes_available s) env)
                  (get_pids_by_name env s BACKGROUND_PROCESSES)) (suspended_pids s)\<rparr>,
          tr @ calls_of (ctypes_available s) CallNtSuspendProcess env
                 (get_pids_by_name env s BACKGROUND_PROCESSES)))
      else (Inr (Activated False 0 0 0 0), (s, tr)))"
  by (simp add: activate_game_mode_def call_bool_def suspend_background_apps_def suspend_each_eq)

lemma get_pids_by_name_update [simp]:
  "get_pids_by_name env (s\<lparr>suspended_pids := xs\<rparr>) names = get_pids_by_name env s names"
  by (simp add: get_pids_by_name_def)

lemma suspend_in_calls_of:
  "p \<in> set ps \<Longrightarrow> suspend_adds c env p \<Longrightarrow>
   CallNtSuspendProcess p \<in> set (calls_of c CallNtSuspendProcess env ps)"
  by (induction ps) (auto simp: calls_of_def nt_calls_def suspend_adds_def suspend_succeeds_def)

lemma fold_set_add_distinct: "distinct ys \<Longrightarrow> distinct (fold set_add xs ys)"
  by (induction xs arbitrary: ys) (auto simp: set_add_def)

text \<open>
  C2: the claim is that over two consecutive activations the suspend primitive runs at
  most once per identifier, tracked identifiers being skipped the second time. The code
  never consults the set before suspending. With the background category on, the second
  activation suspends identifier 10 again although the first one tracked it.
\<close>

theorem activate_twice_counterexample:
  "10 \<in> set (suspended_pids (fst (snd (activate_game_mode sample_env (background_only, []))))) \<and>
   count_list
     (snd (snd (activate_game_mode sample_env
                 (snd (activate_game_mode sample_env (background_only, []))))))
     (CallNtSuspendProcess 10) = 2"
  by code_simp

text \<open>
  C2, as the code has it, for activations that reach the background category (the
  service enabled, the shell, browser and launcher toggles off, the background toggle
  on) over a fixed process table. Each of two consecutive activations runs the suspend
  primitive on every identifier that \<open>_get_pids_by_name\<close> resolves for the category, in
  that order, whether the identifier is in the set or not: the system calls of the first
  are those of one pass over the resolved identifiers, and the second makes the same
  calls once more. So every resolved identifier is attempted in both, and every one
  whose suspension succeeded in the first, tracked by then, is suspended again in the
  second. The set after the first activation is the set before it together with the
  resolved identifiers whose suspension succeeded; it has no repetitions if it had none;
  the second activation leaves the service as the first left it and returns the same
  counts.
\<close>

theorem activate_twice_repeats:
  assumes "enabled s" and "\<not> suspend_explorer s" and "\<not> suspend_browsers s"
    and "\<not> suspend_launchers s" and "suspend_background s"
    and "activate_game_mode env (s, tr) = (r1, (s1, tr1))"
    and "activate_game_mode env (s1, tr1) = (r2, (s2, tr2))"
  shows "tr1 = tr @ calls_of (ctypes_available s) CallNtSuspendProcess env
                     (get_pids_by_name env s BACKGROUND_PROCESSES) \<and>
         tr2 = tr1 @ calls_of (ctypes_available s) CallNtSuspendProcess env
                      (get_pids_by_name env s BACKGROUND_PROCESSES) \<and>
         (ctypes_available s \<longrightarrow>
            CallOpenProcess ` set (get_pids_by_name env s BACKGROUND_PROCESSES)
              \<subseteq> set (drop (length tr) tr1) \<and>
            CallOpenProcess ` set (get_pids_by_name env s BACKGROUND_PROCESSES)
              \<subseteq> set (drop (length tr1) tr2)) \<and>
         set (suspended_pids s1) =
           set (suspended_pids s) \<union>
           {p \<in> set (get_pids_by_name env s BACKGROUND_PROCESSES).
              ctypes_available s \<and> suspend_succeeds env p} \<and>
         {p \<in> set (get_pids_by_name env s BACKGROUND_PROCESSES).
            ctypes_available s \<and> suspend_succeeds env p}
           \<subseteq> {p. CallNtSuspendProcess p \<in> set (drop (length tr1) tr2)} \<and>
         (distinct (suspended_pids s) \<longrightarrow> distinct (suspended_pids s1)) \<and>
         s2 = s1 \<and> r2 = r1 \<and>
         r1 = Inr (Activated False 0 0
                (length (filter (\<lambda>p. ctypes_available s \<and> suspend_succeeds env p \<and>
                                     close_returns env p)
                           (get_pids_by_name env s BACKGROUND_PROCESSES)))
                (length (filter (\<lambda>p. ctypes_available s \<and> suspend_succeeds env p \<and>
                                     close_returns env p)
                           (get_pids_by_name env s BACKGROUND_PROCESSES))))"
proof -
  let ?c = "ctypes_available s"
  let ?pids = "get_pids_by_name env s BACKGROUND_PROCESSES"
  let ?T = "calls_of ?c CallNtSuspendProcess env ?pids"
  let ?added = "filter (suspend_adds ?c env) ?pids"
  let ?n = "length (filter (suspend_returns ?c env) ?pids)"
  from assms(1-6) have s1: "s1 = s\<lparr>suspended_pids := fold set_add ?added (suspended_pids s)\<rparr>"
    and tr1: "tr1 = tr @ ?T"
    and r1: "r1 = Inr (Activated False 0 0 ?n ?n)"
    by (auto simp: activate_game_mode_eq)
  from assms(1-5,7) have s2: "s2 = s1" and tr2: "tr2 = tr1 @ ?T" and r2: "r2 = r1"
    unfolding s1 r1 by (auto simp: activate_game_mode_eq fold_set_add_twice)
  have opens: "?c \<longrightarrow> CallOpenProcess ` set ?pids \<subseteq> set ?T"
    by (auto simp: open_in_calls_of)
  have set1: "set (suspended_pids s1) =
                set (suspended_pids s) \<union> {p \<in> set ?pids. ?c \<and> suspend_succeeds env p}"
    unfolding s1 by (auto simp: fold_set_add_set suspend_adds_def)
  have again: "{p \<in> set ?pids. ?c \<and> suspend_succeeds env p}
                 \<subseteq> {p. CallNtSuspendProcess p \<in> set ?T}"
    using suspend_in_calls_of [of _ ?pids ?c env] by (auto simp: suspend_adds_def)
  have dist: "distinct (suspended_pids s) \<longrightarrow> distinct (suspended_pids s1)"
    unfolding s1 by (simp add: fold_set_add_distinct)
  have n: "?n = length (filter (\<lambda>p. ?c \<and> suspend_succeeds env p \<and> close_returns env p) ?pids)"
    by (rule arg_cong [where f = length], rule filter_cong)
       (auto simp: suspend_returns_def suspend_adds_def)
  from opens have o1: "?c \<longrightarrow> CallOpenProcess ` set ?pids \<subseteq> set (drop (length tr) tr1)"
    and o2: "?c \<longrightarrow> CallOpenProcess ` set ?pids \<subseteq> set (drop (length tr1) tr2)"
    unfolding tr2 unfolding tr1 by simp_all
  from again have a2: "{p \<in> set ?pids. ?c \<and> suspend_succeeds env p}
                 \<subseteq> {p. CallNtSuspendProcess p \<in> set (drop (length tr1) tr2)}"
    unfolding tr2 by simp
  from r1 n have r1': "r1 = Inr (Activated False 0 0
                (length (filter (\<lambda>p. ?c \<and> suspend_succeeds env p \<and> close_returns env p) ?pids))
                (length (filter (\<lambda>p. ?c \<and> suspend_succeeds env p \<and> close_returns env p) ?pids)))"
    by simp
  from tr1 tr2 o1 o2 set1 a2 dist s2 r2 r1' show ?thesis by blast
qed

theorem activate_twice_repeats_witness:
  "enabled background_only \<and> \<not> suspend_explorer background_only \<and>
   \<not> suspend_browsers background_only \<and> \<not> suspend_launchers background_only \<and>
   suspend_background background_only \<and>
   activate_game_mode sample_env (background_only, []) =
     (Inr (Activated False 0 0 1 1),
      (background_only\<lparr>suspended_pids := [10]\<rparr>,
       [CallOpenProcess 10, CallNtSuspendProcess 10, CallCloseHandle 10, CallOpenProcess 14])) \<and>
   activate_game_mode sample_env
     (background_only\<lparr>suspended_pids := [10]\<rparr>,
      [CallOpenProcess 10, CallNtSuspendProcess 10, CallCloseHandle 10, CallOpenProcess 14]) =
     (Inr (Activated False 0 0 1 1),
      (background_only\<lparr>suspended_pids := [10]\<rparr>,
       [CallOpenProcess 10, CallNtSuspendProcess 10, CallCloseHandle 10, CallOpenProcess 14,
        CallOpenProcess 10, CallNtSuspendProcess 10, CallCloseHandle 10, CallOpenProcess 14])) \<and>
   get_pids_by_name sample_env background_only BACKGROUND_PROCESSES = [10, 14] \<and>
   [CallOpenProcess 10, CallNtSuspendProcess 10, CallCloseHandle 10, CallOpenProcess 14] =
     [] @ calls_of (ctypes_available background_only) CallNtSuspendProcess sample_env
            (get_pids_by_name sample_env background_only BACKGROUND_PROCESSES)"
proof -
  have f: "enabled background_only" "\<not> suspend_explorer background_only"
    "\<not> suspend_browsers background_only" "\<not> suspend_launchers background_only"
    "suspend_background background_only"
    by (simp_all add: background_only_def init_service_def)
  have h1: "activate_game_mode sample_env (background_only, []) =
     (Inr (Activated False 0 0 1 1),
      (background_only\<lparr>suspended_pids := [10]\<rparr>,
       [CallOpenProcess 10, CallNtSuspendProcess 10, CallCloseHandle 10, CallOpenProcess 14]))"
    by code_simp
  have h2: "activate_game_mode sample_env
     (background_only\<lparr>suspended_pids := [10]\<rparr>,
      [CallOpenProcess 10, CallNtSuspendProcess 10, CallCloseHandle 10, CallOpenProcess 14]) =
     (Inr (Activated False 0 0 1 1),
      (background_only\<lparr>suspended_pids := [10]\<rparr>,
       [CallOpenProcess 10, CallNtSuspendProcess 10, CallCloseHandle 10, CallOpenProcess 14,
        CallOpenProcess 10, CallNtSuspendProcess 10, CallCloseHandle 10, CallOpenProcess 14]))"
    by code_simp
  have g: "get_pids_by_name sample_env background_only BACKGROUND_PROCESSES = [10, 14]"
    by code_simp
  from activate_twice_repeats [OF f h1 h2, THEN conjunct1] f h1 h2 g show ?thesis by blast
qed

section \<open>Deactivation\<close>

text \<open>
  C9: with an empty set of suspended identifiers and no shell identifier,
  \<open>deactivate_game_mode\<close> returns the counts \<open>resumed = 0\<close> and \<open>failed = 0\<close>, raises
  nothing, makes no system call and leaves the service unchanged.
\<close>

theorem deactivate_nothing_tracked:
  "suspended_pids s = [] \<Longrightarrow> explorer_pid s = None \<Longrightarrow>
   deactivate_game_mode env (s, tr) = (\<lparr>resumed = 0, failed_resumes = 0\<rparr>, (s, tr))"
  by (simp add: deactivate_game_mode_def)

theorem deactivate_nothing_tracked_witness:
  "suspended_pids (init_service True True) = [] \<and> explorer_pid (init_service True True) = None \<and>
   deactivate_game_mode sample_env (init_service True True, []) =
     (\<lparr>resumed = 0, failed_resumes = 0\<rparr>, (init_service True True, []))"
  using deactivate_nothing_tracked [of "init_service True True" sample_env "[]"]
  by (simp add: init_service_def)

lemma resume_explorer_eq:
  "resume_explorer env (s, tr) =
     (case explorer_pid s of
        None \<Rightarrow> (True, s, tr)
      | Some p \<Rightarrow>
          if p = 0 then (True, s, tr)
          else
            (resume_returns (ctypes_available s) env p,
             (if resume_returns (ctypes_available s) env p
              then s\<lparr>suspended_pids := set_discard p (suspended_pids s), explorer_pid := None\<rparr>
              else if resume_discards (ctypes_available s) env p
              then s\<lparr>suspended_pids := set_discard p (suspended_pids s)\<rparr>
              else s),
             tr @ (if ctypes_available s then nt_calls CallNtResumeProcess env p else [])))"
  by (simp add: resume_explorer_def resume_process_eq2 resume_returns_def split: option.splits)

lemma length_filter_not_le:
  "length (filter (\<lambda>q. \<not> (q \<in> set xs \<and> D q)) xs) \<le> length (filter (\<lambda>q. \<not> (D q \<and> C q)) xs)"
proof -
  have "filter (\<lambda>q. \<not> (q \<in> set xs \<and> D q)) xs = filter (\<lambda>q. \<not> D q) xs"
    by (rule filter_cong) auto
  moreover have "length (filter (\<lambda>q. \<not> D q) xs) \<le> length (filter (\<lambda>q. \<not> (D q \<and> C q)) xs)"
    by (induction xs) auto
  ultimately show ?thesis by simp
qed

text \<open>
  C3: the claim is that the set of suspended identifiers is empty after every
  deactivation, a failed resume being dropped from tracking too. \<open>_resume_process\<close>
  discards an identifier only on success: with 10 and 11 tracked and 11 refusing to
  resume, 11 is still tracked afterwards.
\<close>

theorem deactivate_counterexample:
  "deactivate_game_mode sample_env (two_tracked, []) =
     (\<lparr>resumed = 1, failed_resumes = 1\<rparr>,
      (two_tracked\<lparr>suspended_pids := [11]\<rparr>,
       [CallOpenProcess 10, CallNtResumeProcess 10, CallCloseHandle 10,
        CallOpenProcess 11, CallNtResumeProcess 11, CallCloseHandle 11]))"
  by code_simp

text \<open>
  C3, as the code has it: after \<open>deactivate_game_mode\<close> the set holds exactly the
  identifiers it held before whose resume transition did not succeed; each of them was
  counted in \<open>failed\<close>; and a resume was attempted (a handle requested) for every
  identifier that was in the set.
\<close>

theorem deactivate_keeps_failed:
  assumes "deactivate_game_mode env (s, tr) = (r, (s', tr'))"
  shows "set (suspended_pids s') =
           {p \<in> set (suspended_pids s). \<not> (ctypes_available s \<and> resume_succeeds env p)} \<and>
         length (suspended_pids s') \<le> failed_resumes r \<and>
         (ctypes_available s \<longrightarrow> CallOpenProcess ` set (suspended_pids s) \<subseteq> set tr')"
proof (cases "truthy_pid (explorer_pid s)")
  case False
  with assms have eq:
    "resume_each env (suspended_pids s) \<lparr>resumed = 0, failed_resumes = 0\<rparr> (s, tr) = (r, (s', tr'))"
    by (simp add: deactivate_game_mode_def)
  from eq have s': "suspended_pids s' =
      filter (\<lambda>q. \<not> (q \<in> set (suspended_pids s) \<and> resume_discards (ctypes_available s) env q))
        (suspended_pids s)"
    by (auto simp: resume_each_eq)
  from eq have r: "failed_resumes r =
      length (filter (\<lambda>q. \<not> resume_returns (ctypes_available s) env q) (suspended_pids s))"
    by (auto simp: resume_each_eq)
  from eq have t: "tr' = tr @ calls_of (ctypes_available s) CallNtResumeProcess env (suspended_pids s)"
    by (auto simp: resume_each_eq)
  have 1: "set (suspended_pids s') =
           {p \<in> set (suspended_pids s). \<not> (ctypes_available s \<and> resume_succeeds env p)}"
    unfolding s' by (auto simp: resume_discards_def)
  have 2: "length (suspended_pids s') \<le> failed_resumes r"
    unfolding s' r resume_returns_def by (rule length_filter_not_le)
  have 3: "ctypes_available s \<longrightarrow> CallOpenProcess ` set (suspended_pids s) \<subseteq> set tr'"
    unfolding t by (auto simp: open_in_calls_of)
  from 1 2 3 show ?thesis by blast
next
  case True
  then obtain e where e: "explorer_pid s = Some e" "e \<noteq> 0"
    by (cases "explorer_pid s") auto
  let ?c = "ctypes_available s"
  let ?s1 = "if resume_returns ?c env e
              then s\<lparr>suspended_pids := set_discard e (suspended_pids s), explorer_pid := None\<rparr>
              else if resume_discards ?c env e
              then s\<lparr>suspended_pids := set_discard e (suspended_pids s)\<rparr>
              else s"
  let ?r1 = "if resume_returns ?c env e then \<lparr>resumed = 1, failed_resumes = 0\<rparr>
             else \<lparr>resumed = 0, failed_resumes = 1\<rparr>"
  let ?t1 = "tr @ (if ?c then nt_calls CallNtResumeProcess env e else [])"
  have c1: "ctypes_available ?s1 = ?c" by simp
  have l1: "suspended_pids ?s1 =
      (if resume_discards ?c env e then set_discard e (suspended_pids s) else suspended_pids s)"
    by (simp add: resume_returns_def)
  from assms True e have eq:
    "resume_each env (suspended_pids ?s1) ?r1 (?s1, ?t1) = (r, (s', tr'))"
    by (simp add: deactivate_game_mode_def resume_explorer_eq split: if_splits)
  from eq have s': "suspended_pids s' =
      filter (\<lambda>q. \<not> (q \<in> set (suspended_pids ?s1) \<and> resume_discards ?c env q))
        (suspended_pids ?s1)"
    unfolding resume_each_eq c1 by (auto split: if_splits)
  from eq have r: "failed_resumes r = failed_resumes ?r1 +
      length (filter (\<lambda>q. \<not> resume_returns ?c env q) (suspended_pids ?s1))"
    unfolding resume_each_eq c1 by (auto split: if_splits)
  from eq have t: "tr' = ?t1 @ calls_of ?c CallNtResumeProcess env (suspended_pids ?s1)"
    unfolding resume_each_eq c1 by (auto split: if_splits)
  have 1: "set (suspended_pids s') =
           {p \<in> set (suspended_pids s). \<not> (ctypes_available s \<and> resume_succeeds env p)}"
    unfolding s' l1 by (auto simp: resume_discards_def set_discard_def)
  have "length (suspended_pids s') \<le>
          length (filter (\<lambda>q. \<not> resume_returns ?c env q) (suspended_pids ?s1))"
    unfolding s' resume_returns_def by (rule length_filter_not_le)
  then have 2: "length (suspended_pids s') \<le> failed_resumes r"
    unfolding r by simp
  have 3: "ctypes_available s \<longrightarrow> CallOpenProcess ` set (suspended_pids s) \<subseteq> set tr'"
  proof (intro impI subsetI)
    fix x assume c: "ctypes_available s" and "x \<in> CallOpenProcess ` set (suspended_pids s)"
    then obtain p where p: "p \<in> set (suspended_pids s)" "x = CallOpenProcess p" by auto
    show "x \<in> set tr'"
    proof (cases "p = e")
      case True
      then show ?thesis unfolding t p using c by (simp add: open_in_nt_calls)
    next
      case False
      with p have "p \<in> set (suspended_pids ?s1)"
        unfolding l1 by (simp add: set_discard_def)
      then show ?thesis unfolding t p using c by (simp add: open_in_calls_of del: )
    qed
  qed
  from 1 2 3 show ?thesis by blast
qed

theorem deactivate_keeps_failed_witness:
  "deactivate_game_mode sample_env (two_tracked, []) =
     (\<lparr>resumed = 1, failed_resumes = 1\<rparr>,
      (two_tracked\<lparr>suspended_pids := [11]\<rparr>,
       [CallOpenProcess 10, CallNtResumeProcess 10, CallCloseHandle 10,
        CallOpenProcess 11, CallNtResumeProcess 11, CallCloseHandle 11])) \<and>
   set (suspended_pids (two_tracked\<lparr>suspended_pids := [11]\<rparr>)) =
     {p \<in> set (suspended_pids two_tracked).
        \<not> (ctypes_available two_tracked \<and> resume_succeeds sample_env p)}"
proof -
  have h: "deactivate_game_mode sample_env (two_tracked, []) =
     (\<lparr>resumed = 1, failed_resumes = 1\<rparr>,
      (two_tracked\<lparr>suspended_pids := [11]\<rparr>,
       [CallOpenProcess 10, CallNtResumeProcess 10, CallCloseHandle 10,
        CallOpenProcess 11, CallNtResumeProcess 11, CallCloseHandle 11]))"
    by code_simp
  from deactivate_keeps_failed [OF h] h show ?thesis by blast
qed

text \<open>
  C4: the claim is that the shell identifier is cleared by a deactivation whether or not
  the shell could be resumed. \<open>resume_explorer\<close> clears it on success only: when the
  handle cannot be opened the shell identifier 12 is still in place afterwards.
\<close>

theorem deactivate_shell_counterexample:
  "explorer_pid shell_suspended = Some 12 \<and>
   explorer_pid (fst (snd (deactivate_game_mode denied_env (shell_suspended, [])))) = Some 12"
  by code_simp

text \<open>
  C4, as the code has it: when a shell identifier is tracked, deactivation begins with
  the resume attempt on it (its system calls come first), and the shell identifier is
  cleared exactly when that attempt returns \<open>True\<close>; otherwise it stays.
\<close>

theorem deactivate_shell_slot:
  assumes "explorer_pid s = Some e" and "e \<noteq> 0"
    and "deactivate_game_mode env (s, tr) = (r, (s', tr'))"
  shows "explorer_pid s' =
           (if ctypes_available s \<and> resume_succeeds env e \<and> close_returns env e
            then None else Some e) \<and>
         (ctypes_available s \<longrightarrow>
            take (length tr + length (nt_calls CallNtResumeProcess env e)) tr' =
              tr @ nt_calls CallNtResumeProcess env e)"
proof -
  let ?c = "ctypes_available s"
  let ?s1 = "if resume_returns ?c env e
              then s\<lparr>suspended_pids := set_discard e (suspended_pids s), explorer_pid := None\<rparr>
              else if resume_discards ?c env e
              then s\<lparr>suspended_pids := set_discard e (suspended_pids s)\<rparr>
              else s"
  let ?r1 = "if resume_returns ?c env e then \<lparr>resumed = 1, failed_resumes = 0\<rparr>
             else \<lparr>resumed = 0, failed_resumes = 1\<rparr>"
  let ?t1 = "tr @ (if ?c then nt_calls CallNtResumeProcess env e else [])"
  have c1: "ctypes_available ?s1 = ?c" by simp
  have e1: "explorer_pid ?s1 = (if resume_returns ?c env e then None else Some e)"
    using assms(1) by simp
  from assms have eq:
    "resume_each env (suspended_pids ?s1) ?r1 (?s1, ?t1) = (r, (s', tr'))"
    by (simp add: deactivate_game_mode_def resume_explorer_eq split: if_splits)
  from eq have "explorer_pid s' = explorer_pid ?s1"
    unfolding resume_each_eq c1 by (auto split: if_splits)
  then have 1: "explorer_pid s' =
           (if ctypes_available s \<and> resume_succeeds env e \<and> close_returns env e
            then None else Some e)"
    unfolding e1 by (simp add: resume_returns_def resume_discards_def)
  from eq have t: "tr' = ?t1 @ calls_of ?c CallNtResumeProcess env (suspended_pids ?s1)"
    unfolding resume_each_eq c1 by (auto split: if_splits)
  have 2: "ctypes_available s \<longrightarrow>
            take (length tr + length (nt_calls CallNtResumeProcess env e)) tr' =
              tr @ nt_calls CallNtResumeProcess env e"
    unfolding t by simp
  from 1 2 show ?thesis by blast
qed

theorem deactivate_shell_slot_witness:
  "explorer_pid shell_suspended = Some 12 \<and> (12::int) \<noteq> 0 \<and>
   deactivate_game_mode sample_env (shell_suspended, []) =
     (\<lparr>resumed = 1, failed_resumes = 0\<rparr>,
      (init_service True True,
       [CallOpenProcess 12, CallNtResumeProcess 12, CallCloseHandle 12])) \<and>
   explorer_pid (init_service True True) = None"
proof -
  have h1: "explorer_pid shell_suspended = Some 12" by (simp add: shell_suspended_def)
  have h2: "(12::int) \<noteq> 0" by simp
  have h3: "deactivate_game_mode sample_env (shell_suspended, []) =
     (\<lparr>resumed = 1, failed_resumes = 0\<rparr>,
      (init_service True True,
       [CallOpenProcess 12, CallNtResumeProcess 12, CallCloseHandle 12]))"
    by code_simp
  from deactivate_shell_slot [OF h1 h2 h3] h1 h3 show ?thesis
    by (simp add: init_service_def)
qed

section \<open>Which identifiers a service can come to track\<close>

lemma scan_names_set:
  "set (scan_names lower ns ps acc) =
     set acc \<union>
     {p. \<exists>n. ProcInfo (Some n) p \<in> set (enumerated ps) \<and> n \<noteq> [] \<and> lower n \<in> set ns}"
proof (induction ps arbitrary: acc)
  case Nil
  show ?case by (simp add: enumerated_def)
next
  case (Cons item ps)
  show ?case
  proof (cases item)
    case (ProcInfo name p)
    show ?thesis
    proof (cases name)
      case None
      with Cons.IH [of acc] show ?thesis
        unfolding ProcInfo by (auto simp: enumerated_def)
    next
      case (Some n)
      with Cons.IH [of acc] Cons.IH [of "acc @ [p]"] show ?thesis
        unfolding ProcInfo by (auto simp: enumerated_def)
    qed
  next
    case ProcGone
    with Cons.IH [of acc] show ?thesis by (auto simp: enumerated_def)
  next
    case IterError
    then show ?thesis by (simp add: enumerated_def)
  qed
qed

lemma get_pids_by_name_set:
  "psutil_available s \<Longrightarrow>
   set (get_pids_by_name env s names) =
     {p. \<exists>n. ProcInfo (Some n) p \<in> set (enumerated (process_iter env)) \<and> n \<noteq> [] \<and>
              str_lower (python env) n \<in> str_lower (python env) ` set names}"
  by (simp add: get_pids_by_name_def scan_names_set)

lemma get_pids_subset_matched:
  assumes "set names \<subseteq> set category_names"
  shows "set (get_pids_by_name env s names) \<subseteq> set (matched_pids env)"
proof (cases "psutil_available s")
  case False
  then show ?thesis by (simp add: get_pids_by_name_def)
next
  case True
  with assms show ?thesis
    by (auto simp: get_pids_by_name_set matched_pids_def scan_names_set)
qed

lemma suspend_each_pids:
  "set (suspended_pids (fst (snd (suspend_each env ps r w)))) \<subseteq>
     set (suspended_pids (fst w)) \<union> set ps"
  by (cases w) (auto simp: suspend_each_eq fold_set_add_set)

lemma suspend_process_pids:
  "set (suspended_pids (fst (snd (suspend_process env p (s, tr))))) \<subseteq>
     insert p (set (suspended_pids s))"
  by (auto simp: suspend_process_eq2 set_add_def)

lemma explorer_loop_pids:
  "set (suspended_pids (fst (snd (explorer_loop env ps w)))) \<subseteq>
     set (suspended_pids (fst w)) \<union>
     {p. \<exists>n. ProcInfo (Some n) p \<in> set (enumerated ps) \<and> n \<noteq> [] \<and>
              str_lower (python env) n = ''explorer.exe''}"
proof (induction ps arbitrary: w)
  case Nil
  show ?case by simp
next
  case (Cons item ps)
  obtain s tr where w: "w = (s, tr)" by (cases w)
  show ?case
  proof (cases item)
    case (ProcInfo name p)
    show ?thesis
    proof (cases "name_matches (str_lower (python env)) name (\<lambda>n. n = ''explorer.exe'')")
      case True
      then obtain n where n: "name = Some n" "n \<noteq> []" "str_lower (python env) n = ''explorer.exe''"
        by (cases name) auto
      obtain ok s1 tr1 where sp: "suspend_process env p (s, tr) = (ok, (s1, tr1))"
        by (metis prod_cases3)
      from suspend_process_pids [of env p s tr] sp
      have s1: "set (suspended_pids s1) \<subseteq> insert p (set (suspended_pids s))" by simp
      show ?thesis
      proof (cases ok)
        case True
        with sp s1 n show ?thesis unfolding ProcInfo w by (auto simp: enumerated_def)
      next
        case False
        from Cons.IH [of "(s1, tr1)"]
        have "set (suspended_pids (fst (snd (explorer_loop env ps (s1, tr1))))) \<subseteq>
                set (suspended_pids s1) \<union>
                {p. \<exists>n. ProcInfo (Some n) p \<in> set (enumerated ps) \<and> n \<noteq> [] \<and>
                         str_lower (python env) n = ''explorer.exe''}"
          by simp
        with False sp s1 n show ?thesis unfolding ProcInfo w
          by (auto simp: enumerated_def)
      qed
    next
      case False
      with Cons.IH [of w] show ?thesis unfolding ProcInfo by (auto simp: enumerated_def)
    qed
  next
    case ProcGone
    with Cons.IH [of w] show ?thesis by (auto simp: enumerated_def)
  next
    case IterError
    then show ?thesis by simp
  qed
qed

lemma suspend_explorer_pids:
  "set (suspended_pids (fst (snd (suspend_explorer_method env w)))) \<subseteq>
     set (suspended_pids (fst w)) \<union> set (matched_pids env)"
  using explorer_loop_pids [of env "process_iter env" w]
  by (auto simp: suspend_explorer_method_def matched_pids_def scan_names_set)

lemma resume_explorer_pids:
  "set (suspended_pids (fst (snd (resume_explorer env w)))) \<subseteq> set (suspended_pids (fst w))"
  by (cases w) (auto simp: resume_explorer_eq set_discard_def split: option.splits)

lemma resume_each_pids:
  "set (suspended_pids (fst (snd (resume_each env ps r w)))) \<subseteq> set (suspended_pids (fst w))"
  by (cases w) (auto simp: resume_each_eq)

lemma deactivate_pids:
  "set (suspended_pids (fst (snd (deactivate_game_mode env w)))) \<subseteq> set (suspended_pids (fst w))"
proof -
  obtain ok w' where re: "resume_explorer env w = (ok, w')" by (cases "resume_explorer env w")
  from resume_explorer_pids [of env w] re
  have 1: "set (suspended_pids (fst w')) \<subseteq> set (suspended_pids (fst w))" by simp
  show ?thesis
    using 1 re resume_each_pids [of env "suspended_pids (fst w')" _ w']
      resume_each_pids [of env "suspended_pids (fst w)" _ w]
    by (auto simp: deactivate_game_mode_def split: if_splits)
qed

lemma activate_pids:
  "set (suspended_pids (fst (snd (activate_game_mode env w)))) \<subseteq>
     set (suspended_pids (fst w)) \<union> set (matched_pids env)"
proof -
  obtain s tr where w: "w = (s, tr)" by (cases w)
  have "set BACKGROUND_PROCESSES \<subseteq> set category_names"
    by (auto simp: category_names_def)
  from get_pids_subset_matched [OF this, of env s] show ?thesis
    unfolding w by (auto simp: activate_game_mode_eq fold_set_add_set)
qed

lemma run_operation_pids:
  "set (suspended_pids (fst (run_operation env op w))) \<subseteq>
     set (suspended_pids (fst w)) \<union> set (matched_pids env)"
proof (cases op)
  case OpSuspendExplorer
  with suspend_explorer_pids [of env w] show ?thesis by simp
next
  case OpSuspendBrowsers
  have "set BROWSER_PROCESSES \<subseteq> set category_names"
    by (auto simp: category_names_def)
  from get_pids_subset_matched [OF this, of env "fst w"]
    suspend_each_pids [of env "get_pids_by_name env (fst w) BROWSER_PROCESSES" _ w]
  show ?thesis unfolding OpSuspendBrowsers by (auto simp: suspend_browsers_method_def)
next
  case OpSuspendLaunchers
  have "set LAUNCHER_PROCESSES \<subseteq> set category_names"
    by (auto simp: category_names_def)
  from get_pids_subset_matched [OF this, of env "fst w"]
    suspend_each_pids [of env "get_pids_by_name env (fst w) LAUNCHER_PROCESSES" _ w]
  show ?thesis unfolding OpSuspendLaunchers by (auto simp: suspend_launchers_method_def)
next
  case OpSuspendBackgroundApps
  have "set BACKGROUND_PROCESSES \<subseteq> set category_names"
    by (auto simp: category_names_def)
  from get_pids_subset_matched [OF this, of env "fst w"]
    suspend_each_pids [of env "get_pids_by_name env (fst w) BACKGROUND_PROCESSES" _ w]
  show ?thesis unfolding OpSuspendBackgroundApps by (auto simp: suspend_background_apps_def)
next
  case OpResumeExplorer
  with resume_explorer_pids [of env w] show ?thesis by auto
next
  case OpActivateGameMode
  with activate_pids [of env w] show ?thesis by simp
next
  case OpDeactivateGameMode
  with deactivate_pids [of env w] show ?thesis by auto
qed

text \<open>
  C7: the claim is that the set of suspended identifiers never contains the caller's own
  identifier, because category resolution leaves it out. \<open>_get_pids_by_name\<close> returns
  every identifier whose name matches and never looks at the caller's own: on the sample
  table the caller is identifier 10, runs under the name \<open>Discord.exe\<close>, is resolved
  as a background application and ends up in the set.
\<close>

theorem own_pid_counterexample:
  "getpid sample_env = 10 \<and>
   get_pids_by_name sample_env background_only BACKGROUND_PROCESSES = [10, 14] \<and>
   suspended_pids background_only = [] \<and>
   suspended_pids (fst (run_operation sample_env OpActivateGameMode (background_only, []))) = [10]"
  by code_simp

text \<open>
  C7, as the code has it. Category resolution (with \<open>psutil\<close> available) returns exactly
  the identifiers of the entries enumerated whose name is not empty and, in lower case,
  is the lower case of one of the names asked for; the caller's own identifier is not
  left out. And every operation only adds identifiers that the process table lists under
  \<open>explorer.exe\<close> or a category name: if the caller's own identifier is not in the set
  and the table does not list it under such a name, it is not in the set after the
  operation either.
\<close>

theorem own_pid_invariant:
  "(psutil_available (fst w) \<longrightarrow>
      set (get_pids_by_name env (fst w) names) =
        {p. \<exists>n. ProcInfo (Some n) p \<in> set (enumerated (process_iter env)) \<and> n \<noteq> [] \<and>
                 str_lower (python env) n \<in> str_lower (python env) ` set names}) \<and>
   (getpid env \<notin> set (suspended_pids (fst w)) \<and> getpid env \<notin> set (matched_pids env) \<longrightarrow>
      getpid env \<notin> set (suspended_pids (fst (run_operation env op w))))"
  using run_operation_pids [of env op w] get_pids_by_name_set [of "fst w" env names]
  by blast

theorem own_pid_invariant_witness:
  "psutil_available background_only \<and>
   ProcInfo (Some ''System'') (getpid other_env) \<in> set (enumerated (process_iter other_env)) \<and>
   getpid other_env \<notin> set (suspended_pids background_only) \<and>
   getpid other_env \<notin> set (matched_pids other_env) \<and>
   getpid other_env \<notin>
     set (suspended_pids (fst (run_operation other_env OpActivateGameMode (background_only, [])))) \<and>
   set (get_pids_by_name other_env background_only BACKGROUND_PROCESSES) =
     {p. \<exists>n. ProcInfo (Some n) p \<in> set (enumerated (process_iter other_env)) \<and> n \<noteq> [] \<and>
              str_lower (python other_env) n \<in>
                str_lower (python other_env) ` set BACKGROUND_PROCESSES}"
proof -
  have h0: "psutil_available background_only"
    by (simp add: background_only_def init_service_def)
  have l: "ProcInfo (Some ''System'') (getpid other_env) \<in> set (enumerated (process_iter other_env))"
    by code_simp
  have h1: "getpid other_env \<notin> set (suspended_pids background_only)"
    by code_simp
  have h2: "getpid other_env \<notin> set (matched_pids other_env)"
    by code_simp
  note t = own_pid_invariant [of "(background_only, [])" other_env BACKGROUND_PROCESSES
      OpActivateGameMode]
  from t h0 have c1: "set (get_pids_by_name other_env background_only BACKGROUND_PROCESSES) =
     {p. \<exists>n. ProcInfo (Some n) p \<in> set (enumerated (process_iter other_env)) \<and> n \<noteq> [] \<and>
              str_lower (python other_env) n \<in>
                str_lower (python other_env) ` set BACKGROUND_PROCESSES}"
    by simp
  from t h1 h2 have c2: "getpid other_env \<notin>
     set (suspended_pids (fst (run_operation other_env OpActivateGameMode (background_only, []))))"
    by simp
  show ?thesis
    by (rule conjI [OF h0 conjI [OF l conjI [OF h1 conjI [OF h2 conjI [OF c2 c1]]]]])
qed

section \<open>The game detector\<close>

lemma fold_record_detected:
  "fold (\<lambda>game v. notify (Some record_detected) game v) xs evs = evs @ map Detected xs"
  by (induction xs arbitrary: evs) (simp_all add: notify_def record_detected_def)

lemma fold_record_closed:
  "fold (\<lambda>game v. notify (Some record_closed) game v) xs evs = evs @ map Closed xs"
  by (induction xs arbitrary: evs) (simp_all add: notify_def record_closed_def)

lemma fold_skip: "fold (\<lambda>game v. v) xs evs = evs"
  by (induction xs) simp_all

lemma check_games_recorded:
  assumes "det_psutil_available d" and "scan_games (str_lower rt) procs [] = Some current"
    and "on_game_detected d = Some record_detected"
    and "on_game_closed d = Some record_closed"
  shows "check_games rt procs (d, evs) =
           (d\<lparr>detected_games := set_order rt CurrentGames current\<rparr>,
            evs @ (if auto_optimize d
                   then map Detected
                          (set_order rt NewGames (set_diff current (remdups (detected_games d))))
                   else [])
                @ map Closed
                    (set_order rt ClosedGames (set_diff (remdups (detected_games d)) current)))"
  using assms
  by (simp add: check_games_def Let_def fold_record_detected fold_record_closed fold_skip)

lemma scan_games_distinct:
  "distinct acc \<Longrightarrow> scan_games lower procs acc = Some current \<Longrightarrow> distinct current"
  by (induction lower procs acc rule: scan_games.induct)
     (auto simp: set_add_def split: if_splits option.splits)

lemma set_order_props:
  assumes "is_set_order order" and "distinct xs"
  shows "distinct (order site xs)" and "set (order site xs) = set xs"
  using assms unfolding is_set_order_def by blast+

lemma distinct_singleton: "distinct ys \<Longrightarrow> set ys = {x} \<Longrightarrow> ys = [x]"
proof (cases ys)
  case Nil
  assume "set ys = {x}"
  with Nil show ?thesis by simp
next
  case (Cons y zs)
  assume d: "distinct ys" and s: "set ys = {x}"
  from s Cons have y: "y = x" and "set zs \<subseteq> {x}" by auto
  with d Cons have "zs = []" by (cases zs) auto
  with y Cons show ?thesis by simp
qed

lemma set_order_nil: "is_set_order order \<Longrightarrow> order site [] = []"
  using set_order_props(2) [of order "[]" site] by simp

lemma set_order_single:
  "is_set_order order \<Longrightarrow> distinct xs \<Longrightarrow> set xs = {x} \<Longrightarrow> order site xs = [x]"
  using set_order_props [of order xs site] by (simp add: distinct_singleton)

lemma set_diff_props:
  "distinct xs \<Longrightarrow> distinct (set_diff xs ys)" "set (set_diff xs ys) = set xs - set ys"
  by (auto simp: set_diff_def)

text \<open>
  C5: the claim gives the notifications of the four ticks without condition. They depend
  on the auto-optimize setting: with it off, the same snapshots deliver no detected
  notification at all, only the two closed ones.
\<close>

theorem detector_script_counterexample:
  "run_ticks sample_python
     [[ProcInfo (Some ''cs2.exe'') 7],
      [ProcInfo (Some ''cs2.exe'') 7, ProcInfo (Some ''valheim.exe'') 8],
      [ProcInfo (Some ''valheim.exe'') 8],
      []] (recording_detector\<lparr>auto_optimize := False\<rparr>) =
     [([], {''Counter-Strike 2''}),
      ([], {''Counter-Strike 2'', ''Valheim''}),
      ([Closed ''Counter-Strike 2''], {''Valheim''}),
      ([Closed ''Valheim''], {})]"
  by code_simp

text \<open>
  C5, as the code has it: from an empty stored set, with auto-optimize on (as
  \<open>__init__\<close> sets it) and both callbacks registered, the snapshots \<open>{A}\<close>,
  \<open>{A, B}\<close>, \<open>{B}\<close>, \<open>{}\<close> of executables of two different catalog games yield
  detected(A) on the first tick, detected(B) on the second, closed(A) on the third and
  closed(B) on the fourth, and nothing else; after each tick the stored set is that
  tick's set of games. This holds whatever order Python iterates its sets in, and the
  second snapshot may list the two processes in either order.
\<close>

theorem detector_script:
  assumes "is_set_order (set_order rt)"
    and "a \<noteq> []" and "b \<noteq> []"
    and "game_lookup (str_lower rt) SUPPORTED_GAMES (str_lower rt a) = Some ga"
    and "game_lookup (str_lower rt) SUPPORTED_GAMES (str_lower rt b) = Some gb"
    and "ga \<noteq> gb"
    and "det_psutil_available d" and "auto_optimize d"
    and "on_game_detected d = Some record_detected"
    and "on_game_closed d = Some record_closed"
    and "detected_games d = []"
  shows "run_ticks rt
           [[ProcInfo (Some a) pa],
            (if swap then [ProcInfo (Some b) pb, ProcInfo (Some a) pa]
             else [ProcInfo (Some a) pa, ProcInfo (Some b) pb]),
            [ProcInfo (Some b) pb],
            []] d =
         [([Detected ga], {ga}),
          ([Detected gb], {ga, gb}),
          ([Closed ga], {gb}),
          ([Closed gb], {})]"
proof -
  let ?A = "ProcInfo (Some a) pa" and ?B = "ProcInfo (Some b) pb"
  let ?L = "str_lower rt"
  let ?snap = "if swap then [?B, ?A] else [?A, ?B]"
  let ?cur2 = "if swap then [gb, ga] else [ga, gb]"
  note so = assms(1)
  have sA: "scan_games ?L [?A] [] = Some [ga]"
   and sB: "scan_games ?L [?B] [] = Some [gb]"
   and s2: "scan_games ?L ?snap [] = Some ?cur2"
   and s0: "scan_games ?L [] [] = Some []"
    using assms(2-6) by (simp_all add: set_add_def)
  have flags: "det_psutil_available (d\<lparr>detected_games := xs\<rparr>)"
      "auto_optimize (d\<lparr>detected_games := xs\<rparr>)"
      "on_game_detected (d\<lparr>detected_games := xs\<rparr>) = Some record_detected"
      "on_game_closed (d\<lparr>detected_games := xs\<rparr>) = Some record_closed" for xs
    using assms(7-10) by simp_all
  have one: "set_order rt site [x] = [x]" for site x
    using set_order_single [OF so, of "[x]" x site] by simp
  have nil: "set_order rt site [] = []" for site
    by (rule set_order_nil [OF so])
  let ?S2 = "set_order rt CurrentGames ?cur2"
  have d2: "distinct ?cur2" using assms(6) by auto
  have S2: "distinct ?S2" "set ?S2 = {ga, gb}"
    using set_order_props [OF so d2, of CurrentGames] by auto
  have t1: "check_games rt [?A] (d, []) = (d\<lparr>detected_games := [ga]\<rparr>, [Detected ga])"
    using check_games_recorded [OF assms(7) sA assms(9,10), of "[]"] assms(8,11)
    by (simp add: set_diff_def one nil)
  have t2: "check_games rt ?snap (d\<lparr>detected_games := [ga]\<rparr>, []) =
              (d\<lparr>detected_games := ?S2\<rparr>, [Detected gb])"
    using check_games_recorded [OF flags(1) s2 flags(3,4), of "[ga]" "[]"] assms(6,8)
    by (simp add: set_diff_def one nil)
  have gone3: "set_order rt ClosedGames (set_diff (remdups ?S2) [gb]) = [ga]"
  proof (rule set_order_single [OF so])
    show "distinct (set_diff (remdups ?S2) [gb])" by (simp add: set_diff_props)
    show "set (set_diff (remdups ?S2) [gb]) = {ga}"
      using S2(2) assms(6) by (auto simp: set_diff_props)
  qed
  have new3: "set_diff [gb] (remdups ?S2) = []"
    using S2(2) by (simp add: set_diff_def)
  have t3: "check_games rt [?B] (d\<lparr>detected_games := ?S2\<rparr>, []) =
              (d\<lparr>detected_games := [gb]\<rparr>, [Closed ga])"
    using check_games_recorded [OF flags(1) sB flags(3,4), of ?S2 "[]"]
    by (simp add: gone3 new3 one nil)
  have t4: "check_games rt [] (d\<lparr>detected_games := [gb]\<rparr>, []) =
              (d\<lparr>detected_games := []\<rparr>, [Closed gb])"
    using check_games_recorded [OF flags(1) s0 flags(3,4), of "[gb]" "[]"]
    by (simp add: set_diff_def one nil)
  show ?thesis
    using S2(2) by (simp add: t1 t2 t3 t4)
qed

theorem detector_script_witness:
  "is_set_order (set_order sample_python) \<and>
   ''cs2.exe'' \<noteq> [] \<and> ''Valheim.EXE'' \<noteq> [] \<and>
   game_lookup (str_lower sample_python) SUPPORTED_GAMES (str_lower sample_python ''cs2.exe'') =
     Some ''Counter-Strike 2'' \<and>
   game_lookup (str_lower sample_python) SUPPORTED_GAMES (str_lower sample_python ''Valheim.EXE'') =
     Some ''Valheim'' \<and>
   ''Counter-Strike 2'' \<noteq> ''Valheim'' \<and>
   det_psutil_available recording_detector \<and> auto_optimize recording_detector \<and>
   on_game_detected recording_detector = Some record_detected \<and>
   on_game_closed recording_detector = Some record_closed \<and>
   detected_games recording_detector = [] \<and>
   run_ticks sample_python
     [[ProcInfo (Some ''cs2.exe'') 7],
      [ProcInfo (Some ''cs2.exe'') 7, ProcInfo (Some ''Valheim.EXE'') 8],
      [ProcInfo (Some ''Valheim.EXE'') 8],
      []] recording_detector =
     [([Detected ''Counter-Strike 2''], {''Counter-Strike 2''}),
      ([Detected ''Valheim''], {''Counter-Strike 2'', ''Valheim''}),
      ([Closed ''Counter-Strike 2''], {''Valheim''}),
      ([Closed ''Valheim''], {})]"
proof -
  have h0: "is_set_order (set_order sample_python)"
    by (simp add: is_set_order_def sample_python_def)
  have h1: "''cs2.exe'' \<noteq> []" and h2: "''Valheim.EXE'' \<noteq> []" by simp_all
  have h3: "game_lookup (str_lower sample_python) SUPPORTED_GAMES
              (str_lower sample_python ''cs2.exe'') = Some ''Counter-Strike 2''"
    by code_simp
  have h4: "game_lookup (str_lower sample_python) SUPPORTED_GAMES
              (str_lower sample_python ''Valheim.EXE'') = Some ''Valheim''"
    by code_simp
  have h5: "''Counter-Strike 2'' \<noteq> ''Valheim''" by simp
  have h6: "det_psutil_available recording_detector" and h7: "auto_optimize recording_detector"
    and h8: "on_game_detected recording_detector = Some record_detected"
    and h9: "on_game_closed recording_detector = Some record_closed"
    and h10: "detected_games recording_detector = []"
    by (simp_all add: recording_detector_def init_detector_def)
  from detector_script [OF h0 h1 h2 h3 h4 h5 h6 h7 h8 h9 h10, of 7 False 8]
  have "run_ticks sample_python
     [[ProcInfo (Some ''cs2.exe'') 7],
      [ProcInfo (Some ''cs2.exe'') 7, ProcInfo (Some ''Valheim.EXE'') 8],
      [ProcInfo (Some ''Valheim.EXE'') 8],
      []] recording_detector =
     [([Detected ''Counter-Strike 2''], {''Counter-Strike 2''}),
      ([Detected ''Valheim''], {''Counter-Strike 2'', ''Valheim''}),
      ([Closed ''Counter-Strike 2''], {''Valheim''}),
      ([Closed ''Valheim''], {})]"
    by simp
  with h0 h1 h2 h3 h4 h5 h6 h7 h8 h9 h10 show ?thesis by blast
qed

text \<open>
  C6: the claim is that a detected notification goes to the registered callback for
  every newly present game whatever the auto-optimize setting. The code guards the call
  with \<open>self.auto_optimize and self.on_game_detected\<close>: with auto-optimize off a newly
  present game is stored but no notification is delivered.
\<close>

theorem detected_counterexample:
  "detected_games (recording_detector\<lparr>auto_optimize := False\<rparr>) = [] \<and>
   detected_games (fst (check_games sample_python [ProcInfo (Some ''cs2.exe'') 5]
                          (recording_detector\<lparr>auto_optimize := False\<rparr>, []))) =
     [''Counter-Strike 2''] \<and>
   snd (check_games sample_python [ProcInfo (Some ''cs2.exe'') 5]
          (recording_detector\<lparr>auto_optimize := False\<rparr>, [])) = []"
  by code_simp

text \<open>
  C6, as the code has it, on a tick with both callbacks registered whose enumeration
  finds the set \<open>current\<close> of games. The names newly present are delivered as detected
  notifications, each once and in the order in which Python iterates the set of them,
  when auto-optimize is on, and no detected notification is delivered when it is off.
  Then the names no longer present are delivered as closed notifications, each once,
  whatever the setting. In both cases the set stored afterwards is \<open>current\<close>.
\<close>

theorem detected_needs_auto_optimize:
  assumes "is_set_order (set_order rt)"
    and "det_psutil_available d"
    and "scan_games (str_lower rt) procs [] = Some current"
    and "on_game_detected d = Some record_detected"
    and "on_game_closed d = Some record_closed"
  shows "check_games rt procs (d, evs) =
           (d\<lparr>detected_games := set_order rt CurrentGames current\<rparr>,
            evs @ (if auto_optimize d
                   then map Detected
                          (set_order rt NewGames (set_diff current (remdups (detected_games d))))
                   else [])
                @ map Closed
                    (set_order rt ClosedGames (set_diff (remdups (detected_games d)) current))) \<and>
         distinct (set_order rt NewGames (set_diff current (remdups (detected_games d)))) \<and>
         set (set_order rt NewGames (set_diff current (remdups (detected_games d)))) =
           set current - set (detected_games d) \<and>
         distinct (set_order rt ClosedGames (set_diff (remdups (detected_games d)) current)) \<and>
         set (set_order rt ClosedGames (set_diff (remdups (detected_games d)) current)) =
           set (detected_games d) - set current \<and>
         distinct (set_order rt CurrentGames current) \<and>
         set (set_order rt CurrentGames current) = set current"
proof -
  have dc: "distinct current"
    using scan_games_distinct [OF _ assms(3)] by simp
  have dn: "distinct (set_diff current (remdups (detected_games d)))"
    and dg: "distinct (set_diff (remdups (detected_games d)) current)"
    using dc by (simp_all add: set_diff_props)
  from set_order_props [OF assms(1) dn, of NewGames]
    set_order_props [OF assms(1) dg, of ClosedGames]
    set_order_props [OF assms(1) dc, of CurrentGames]
    check_games_recorded [OF assms(2-5), of evs]
  show ?thesis by (simp add: set_diff_props)
qed

theorem detected_needs_auto_optimize_witness:
  "is_set_order (set_order sample_python) \<and>
   det_psutil_available recording_detector \<and>
   scan_games (str_lower sample_python)
     [ProcInfo (Some ''cs2.exe'') 5, ProcInfo (Some ''valheim.exe'') 6] [] =
     Some [''Counter-Strike 2'', ''Valheim''] \<and>
   on_game_detected recording_detector = Some record_detected \<and>
   on_game_closed recording_detector = Some record_closed \<and>
   check_games sample_python [ProcInfo (Some ''cs2.exe'') 5, ProcInfo (Some ''valheim.exe'') 6]
     (recording_detector, []) =
     (recording_detector\<lparr>detected_games := [''Valheim'', ''Counter-Strike 2'']\<rparr>,
      [Detected ''Valheim'', Detected ''Counter-Strike 2''])"
proof -
  have h0: "is_set_order (set_order sample_python)"
    by (simp add: is_set_order_def sample_python_def)
  have h1: "det_psutil_available recording_detector"
    by (simp add: recording_detector_def init_detector_def)
  have h2: "scan_games (str_lower sample_python)
              [ProcInfo (Some ''cs2.exe'') 5, ProcInfo (Some ''valheim.exe'') 6] [] =
            Some [''Counter-Strike 2'', ''Valheim'']"
    by code_simp
  have h3: "on_game_detected recording_detector = Some record_detected"
    by (simp add: recording_detector_def init_detector_def)
  have h4: "on_game_closed recording_detector = Some record_closed"
    by (simp add: recording_detector_def init_detector_def)
  from detected_needs_auto_optimize [OF h0 h1 h2 h3 h4, of "[]", THEN conjunct1]
  have "check_games sample_python
          [ProcInfo (Some ''cs2.exe'') 5, ProcInfo (Some ''valheim.exe'') 6]
          (recording_detector, []) =
        (recording_detector\<lparr>detected_games := [''Valheim'', ''Counter-Strike 2'']\<rparr>,
         [Detected ''Valheim'', Detected ''Counter-Strike 2''])"
    by (simp add: recording_detector_def init_detector_def sample_python_def set_diff_def)
  with h0 h1 h2 h3 h4 show ?thesis by blast
qed

end
